theory Spec2Isabelle
  imports Complex_Main "HOL-Library.Stream"
begin

section \<open>The snake game of \<^verbatim>\<open>src/components/SnakeGame.tsx\<close>\<close>

text \<open>
  The component keeps three pieces of React state: \<^verbatim>\<open>gameState\<close>, \<^verbatim>\<open>highScore\<close> and
  \<^verbatim>\<open>isPlaying\<close>. Every handler is modelled as a function on the record of all three, in
  the order in which the handler writes them. Coordinates and the score are JavaScript
  numbers that only ever hold small integers, so they are \<open>int\<close>. The heading is a
  \<^verbatim>\<open>string\<close> in the source and stays one here. Toasts and the write to
  \<^verbatim>\<open>localStorage\<close> are notifications that never flow back into the state and are left
  out.

  The food generator evaluates \<^verbatim>\<open>Math.floor(Math.random() * GRID_SIZE)\<close>. The product is a
  product of doubles, and neither the random number generator nor the rounding of that
  product is modelled: the state carries a stream of integers, each the value of one
  evaluation of the whole expression, and an evaluation takes the head of the stream and
  leaves the tail. With \<^verbatim>\<open>Math.random()\<close> within \<open>[0, 1)\<close> and a grid size of 20 the value is
  one of \<open>0, \<dots>, 19\<close>: the largest double below 1, times 20, rounds to a double below
  20, and each of the twenty values occurs at some draw (the draws \<open>m / 64\<close> give exact
  products that reach all of them). So the streams over \<open>0, \<dots>, 19\<close> are the runs of the
  expression, no more and no fewer. This contract is a premise where it matters (the rule
  for the mounted state below) and is never built into a function.
\<close>

subsection \<open>Data\<close>

record Position =
  x :: int
  y :: int

record GameState =
  snake :: "Position list"
  food :: Position
  direction :: string
  score :: int
  gameOver :: bool
  isPaused :: bool

record Component =
  gameState :: GameState
  highScore :: int
  isPlaying :: bool
  random :: "int stream"

definition GRID_SIZE :: int where
  "GRID_SIZE = 20"

definition INITIAL_SNAKE :: "Position list" where
  "INITIAL_SNAKE = [\<lparr>x = 10, y = 10\<rparr>]"

definition INITIAL_FOOD :: Position where
  "INITIAL_FOOD = \<lparr>x = 15, y = 15\<rparr>"

text \<open>
  The state after the component is mounted: the \<^verbatim>\<open>useState\<close> initialisers, with the high
  score \<open>h\<close> read from storage (0 when nothing is stored).
\<close>

definition mount :: "int \<Rightarrow> int stream \<Rightarrow> Component" where
  "mount h rs =
     \<lparr>gameState = \<lparr>snake = INITIAL_SNAKE, food = INITIAL_FOOD, direction = ''RIGHT'',
                   score = 0, gameOver = False, isPaused = False\<rparr>,
      highScore = h, isPlaying = False, random = rs\<rparr>"

subsection \<open>Food placement\<close>

text \<open>
  \<^verbatim>\<open>snake.some(segment => segment.x === p.x && segment.y === p.y)\<close>, used by both the food
  generator and the self-collision check.
\<close>

definition occupies :: "Position list \<Rightarrow> Position \<Rightarrow> bool" where
  "occupies body p = list_ex (\<lambda>segment. x segment = x p \<and> y segment = y p) body"

text \<open>
  The object literal of the loop body: two evaluations of
  \<^verbatim>\<open>Math.floor(Math.random() * GRID_SIZE)\<close>, the first for \<^verbatim>\<open>x\<close>, the second for \<^verbatim>\<open>y\<close>. Each
  takes the next value of the stream.
\<close>

definition candidate :: "int stream \<Rightarrow> Position" where
  "candidate rs = \<lparr>x = shd rs, y = shd (stl rs)\<rparr>"

text \<open>
  The \<^verbatim>\<open>do ... while\<close> loop of \<^verbatim>\<open>generateFood\<close>. It has no bound on the number of rounds,
  so the model is a partial function: \<open>None\<close> is a loop that never ends. The result
  carries the stream that is left.
\<close>

partial_function (option) generateFood ::
  "int stream \<Rightarrow> Position list \<Rightarrow> (Position \<times> int stream) option" where
  "generateFood rs body =
     (let newFood = candidate rs; rest = stl (stl rs)
      in if occupies body newFood then generateFood rest body else Some (newFood, rest))"

subsection \<open>One tick\<close>

text \<open>The \<^verbatim>\<open>switch\<close> on the heading; it has no default branch.\<close>

definition moveHead :: "string \<Rightarrow> Position \<Rightarrow> Position" where
  "moveHead d head =
     (if d = ''UP'' then head\<lparr>y := y head - 1\<rparr>
      else if d = ''DOWN'' then head\<lparr>y := y head + 1\<rparr>
      else if d = ''LEFT'' then head\<lparr>x := x head - 1\<rparr>
      else if d = ''RIGHT'' then head\<lparr>x := x head + 1\<rparr>
      else head)"

definition hitsWall :: "Position \<Rightarrow> bool" where
  "hitsWall head \<longleftrightarrow> x head < 0 \<or> x head \<ge> GRID_SIZE \<or> y head < 0 \<or> y head \<ge> GRID_SIZE"

text \<open>
  The updater that \<^verbatim>\<open>moveSnake\<close> passes to \<^verbatim>\<open>setGameState\<close>, together with its write to
  \<^verbatim>\<open>highScore\<close>. On an empty snake \<^verbatim>\<open>snake[0]\<close> is \<^verbatim>\<open>undefined\<close>: the copied head has no
  coordinates, every comparison with it is false, and the head that was pushed is popped
  again, so the snake stays empty and nothing else changes.
\<close>

definition moveSnake :: "Component \<Rightarrow> Component option" where
  "moveSnake c =
     (let prevState = gameState c in
      if gameOver prevState \<or> isPaused prevState then Some c
      else case snake prevState of
        [] \<Rightarrow> Some c
      | h # _ \<Rightarrow>
          let head = moveHead (direction prevState) h in
          if hitsWall head then Some (c\<lparr>gameState := prevState\<lparr>gameOver := True\<rparr>\<rparr>)
          else if occupies (snake prevState) head
            then Some (c\<lparr>gameState := prevState\<lparr>gameOver := True\<rparr>\<rparr>)
          else
            let newSnake = head # snake prevState in
            if x head = x (food prevState) \<and> y head = y (food prevState) then
              let newScore = score prevState + 10 in
              case generateFood (random c) newSnake of
                None \<Rightarrow> None
              | Some (newFood, rest) \<Rightarrow>
                  Some (c\<lparr>gameState :=
                            prevState\<lparr>snake := newSnake, food := newFood, score := newScore\<rparr>,
                          highScore := (if newScore > highScore c then newScore else highScore c),
                          random := rest\<rparr>)
            else Some (c\<lparr>gameState := prevState\<lparr>snake := butlast newSnake\<rparr>\<rparr>))"

text \<open>
  The tick of the specification, \<open>advanceTick\<close>, is the callback that the interval runs:
  \<^verbatim>\<open>moveSnake\<close>, nothing more. The game loop installs the interval only while
  \<^verbatim>\<open>isPlaying && !gameOver && !isPaused\<close>; whether a callback can still run once the state
  has left that condition is a matter of the timing of effects, which is not modelled, so
  no gate is put around the callback.
\<close>

definition advanceTick :: "Component \<Rightarrow> Component option" where
  "advanceTick c = moveSnake c"

fun advanceTicks :: "nat \<Rightarrow> Component \<Rightarrow> Component option" where
  "advanceTicks 0 c = Some c"
| "advanceTicks (Suc n) c = Option.bind (advanceTick c) (advanceTicks n)"

subsection \<open>Commands\<close>

definition togglePause :: "Component \<Rightarrow> Component" where
  "togglePause c =
     (if \<not> isPlaying c \<or> gameOver (gameState c) then c
      else c\<lparr>gameState := (gameState c)\<lparr>isPaused := \<not> isPaused (gameState c)\<rparr>\<rparr>)"

text \<open>
  The keyboard handler. The \<^verbatim>\<open>switch\<close> tests the space key last and returns from inside
  that case; a key is one string, so testing it first gives the same result.
\<close>

definition handleKeyPress :: "string \<Rightarrow> Component \<Rightarrow> Component" where
  "handleKeyPress key c =
     (if \<not> isPlaying c \<or> gameOver (gameState c) then c
      else
        let d = direction (gameState c) in
        if key = '' '' then togglePause c
        else
          let newDirection =
            (if key = ''ArrowUp'' \<or> key = ''w'' \<or> key = ''W''
               then (if d \<noteq> ''DOWN'' then ''UP'' else d)
             else if key = ''ArrowDown'' \<or> key = ''s'' \<or> key = ''S''
               then (if d \<noteq> ''UP'' then ''DOWN'' else d)
             else if key = ''ArrowLeft'' \<or> key = ''a'' \<or> key = ''A''
               then (if d \<noteq> ''RIGHT'' then ''LEFT'' else d)
             else if key = ''ArrowRight'' \<or> key = ''d'' \<or> key = ''D''
               then (if d \<noteq> ''LEFT'' then ''RIGHT'' else d)
             else d)
          in if newDirection \<noteq> d
             then c\<lparr>gameState := (gameState c)\<lparr>direction := newDirection\<rparr>\<rparr>
             else c)"

definition startGame :: "Component \<Rightarrow> Component option" where
  "startGame c =
     (case generateFood (random c) INITIAL_SNAKE of
        None \<Rightarrow> None
      | Some (newFood, rest) \<Rightarrow>
          Some (c\<lparr>gameState :=
                    \<lparr>snake = INITIAL_SNAKE, food = newFood, direction = ''RIGHT'',
                     score = 0, gameOver = False, isPaused = False\<rparr>,
                  isPlaying := True, random := rest\<rparr>))"

definition resetGame :: "Component \<Rightarrow> Component" where
  "resetGame c =
     c\<lparr>isPlaying := False,
       gameState :=
         \<lparr>snake = INITIAL_SNAKE, food = INITIAL_FOOD, direction = ''RIGHT'',
          score = 0, gameOver = False, isPaused = False\<rparr>\<rparr>"

subsection \<open>Reachable states and the vocabulary of the specification\<close>

text \<open>
  The specification speaks of four engine states. In the component they are read off
  \<^verbatim>\<open>isPlaying\<close>, \<^verbatim>\<open>gameOver\<close> and \<^verbatim>\<open>isPaused\<close>, in the order the rendering code tests
  them: the start button shows while \<^verbatim>\<open>!isPlaying\<close>, the "Game Over!" badge while
  \<^verbatim>\<open>gameOver\<close>, the "Paused" badge while \<^verbatim>\<open>isPaused && !gameOver\<close>.
\<close>

datatype phase = Idle | Running | Paused | Over

definition phase_of :: "Component \<Rightarrow> phase" where
  "phase_of c =
     (if \<not> isPlaying c then Idle
      else if gameOver (gameState c) then Over
      else if isPaused (gameState c) then Paused
      else Running)"

text \<open>A cell of the grid, as the data model of the specification defines it.\<close>

definition inGrid :: "Position \<Rightarrow> bool" where
  "inGrid p \<longleftrightarrow> 0 \<le> x p \<and> x p < GRID_SIZE \<and> 0 \<le> y p \<and> y p < GRID_SIZE"

text \<open>
  The heading a key asks for (the \<open>h\<close> of the specification's \<open>setHeading(h)\<close>), and the
  reverse of a heading. Both follow the specification; \<open>handleKeyPress\<close> above is the
  code they are compared with.
\<close>

definition requested :: "string \<Rightarrow> string option" where
  "requested key =
     (if key \<in> {''ArrowUp'', ''w'', ''W''} then Some ''UP''
      else if key \<in> {''ArrowDown'', ''s'', ''S''} then Some ''DOWN''
      else if key \<in> {''ArrowLeft'', ''a'', ''A''} then Some ''LEFT''
      else if key \<in> {''ArrowRight'', ''d'', ''D''} then Some ''RIGHT''
      else None)"

definition reverse_of :: "string \<Rightarrow> string" where
  "reverse_of h =
     (if h = ''UP'' then ''DOWN'' else if h = ''DOWN'' then ''UP''
      else if h = ''LEFT'' then ''RIGHT'' else if h = ''RIGHT'' then ''LEFT'' else h)"

text \<open>
  The states the component can be in: the mounted state, with a stream of proposals
  that keeps the contract above, followed by any sequence of the buttons, the keys and
  the timer. The timer rule is a call of \<open>moveSnake\<close> in any state: the gate of the game
  loop is not assumed.
\<close>

inductive reachable :: "Component \<Rightarrow> bool" where
  mounted: "\<forall>v\<in>sset rs. 0 \<le> v \<and> v < GRID_SIZE \<Longrightarrow> reachable (mount h rs)"
| started: "reachable c \<Longrightarrow> startGame c = Some c' \<Longrightarrow> reachable c'"
| ticked: "reachable c \<Longrightarrow> moveSnake c = Some c' \<Longrightarrow> reachable c'"
| key_pressed: "reachable c \<Longrightarrow> reachable (handleKeyPress key c)"
| pause_toggled: "reachable c \<Longrightarrow> reachable (togglePause c)"
| reset: "reachable c \<Longrightarrow> reachable (resetGame c)"

text \<open>The invariant that every reachable state satisfies.\<close>

definition invariant :: "Component \<Rightarrow> bool" where
  "invariant c \<longleftrightarrow>
     snake (gameState c) \<noteq> [] \<and>
     distinct (snake (gameState c)) \<and>
     list_all inGrid (snake (gameState c)) \<and>
     inGrid (food (gameState c)) \<and>
     food (gameState c) \<notin> set (snake (gameState c)) \<and>
     direction (gameState c) \<in> {''UP'', ''DOWN'', ''LEFT'', ''RIGHT''} \<and>
     (\<forall>v\<in>sset (random c). 0 \<le> v \<and> v < GRID_SIZE)"

subsection \<open>Sample inputs\<close>

text \<open>
  A stream that proposes every cell of the grid in turn, row by row: the values with
  numbers \<open>2k\<close> and \<open>2k + 1\<close> give the cell \<open>(k mod 20, k div 20 mod 20)\<close>.
\<close>

definition sweep :: "int stream" where
  "sweep = smap (\<lambda>n. int ((if even n then n div 2 else n div 40) mod 20)) (fromN 0)"

text \<open>A running game with score 0 and high score 0, to write sample states with.\<close>

definition playing :: "Position list \<Rightarrow> Position \<Rightarrow> string \<Rightarrow> int stream \<Rightarrow> Component" where
  "playing body f d rs =
     \<lparr>gameState = \<lparr>snake = body, food = f, direction = d, score = 0,
                   gameOver = False, isPaused = False\<rparr>,
      highScore = 0, isPlaying = True, random = rs\<rparr>"

section \<open>Basic facts\<close>

lemma Position_eq_iff: "p = q \<longleftrightarrow> x p = x q \<and> y p = y q" for p q :: Position
  by (cases p, cases q) simp

lemma occupies_iff: "occupies body p \<longleftrightarrow> p \<in> set body"
  unfolding occupies_def list_ex_iff Position_eq_iff [symmetric] by auto

lemma inGrid_iff: "inGrid p \<longleftrightarrow> \<not> hitsWall p"
  by (auto simp: inGrid_def hitsWall_def)

lemma candidate_inGrid:
  assumes "\<forall>v\<in>sset rs. 0 \<le> v \<and> v < GRID_SIZE"
  shows "inGrid (candidate rs)"
proof -
  have a: "shd rs \<in> sset rs" by (simp add: shd_sset)
  have b: "shd (stl rs) \<in> sset rs" by (metis shd_sset stl_sset)
  from assms a b show ?thesis
    by (simp add: inGrid_def candidate_def)
qed

lemma range_sdrop:
  "\<forall>v\<in>sset rs. P v \<Longrightarrow> \<forall>v\<in>sset (sdrop n rs). P v"
  by (auto simp: sset_range sdrop_snth)

lemma advanceTick_Running: "phase_of c = Running \<Longrightarrow> advanceTick c = moveSnake c"
  by (simp add: advanceTick_def)

lemma moveSnake_frozen:
  "gameOver (gameState c) \<or> isPaused (gameState c) \<Longrightarrow> moveSnake c = Some c"
  by (simp add: moveSnake_def)

lemma Running_iff:
  "phase_of c = Running \<longleftrightarrow>
     isPlaying c \<and> \<not> gameOver (gameState c) \<and> \<not> isPaused (gameState c)"
  by (simp add: phase_of_def)

lemma phase_of_crashed:
  "isPlaying c \<Longrightarrow> phase_of (c\<lparr>gameState := (gameState c)\<lparr>gameOver := True\<rparr>\<rparr>) = Over"
  by (simp add: phase_of_def)

lemma accepting_iff:
  "phase_of c \<in> {Running, Paused} \<longleftrightarrow> isPlaying c \<and> \<not> gameOver (gameState c)"
  by (simp add: phase_of_def)

lemma playing_sel:
  "snake (gameState (playing b f d rs)) = b"
  "food (gameState (playing b f d rs)) = f"
  "direction (gameState (playing b f d rs)) = d"
  "score (gameState (playing b f d rs)) = 0"
  "gameOver (gameState (playing b f d rs)) = False"
  "isPaused (gameState (playing b f d rs)) = False"
  "highScore (playing b f d rs) = 0"
  "isPlaying (playing b f d rs) = True"
  "random (playing b f d rs) = rs"
  by (simp_all add: playing_def)

section \<open>The food generator\<close>

text \<open>
  The loop returns the first candidate that is free, and returns at all exactly when
  some round of draws proposes a free cell.
\<close>

lemma generateFood_found:
  "\<not> occupies body (candidate (sdrop (2 * k) rs)) \<Longrightarrow>
   \<exists>j\<le>k. generateFood rs body = Some (candidate (sdrop (2 * j) rs), sdrop (2 * j + 2) rs)
        \<and> \<not> occupies body (candidate (sdrop (2 * j) rs))"
proof (induction k arbitrary: rs)
  case 0
  then show ?case by (subst generateFood.simps) (simp add: Let_def)
next
  case (Suc k)
  show ?case
  proof (cases "occupies body (candidate rs)")
    case False
    then have "generateFood rs body = Some (candidate rs, stl (stl rs))"
      by (subst generateFood.simps) (simp add: Let_def)
    with False show ?thesis by (intro exI[of _ 0]) simp
  next
    case True
    from Suc.prems have "\<not> occupies body (candidate (sdrop (2 * k) (stl (stl rs))))"
      by simp
    from Suc.IH[OF this] obtain j where j: "j \<le> k"
      "generateFood (stl (stl rs)) body =
         Some (candidate (sdrop (2 * j) (stl (stl rs))), sdrop (2 * j + 2) (stl (stl rs)))"
      "\<not> occupies body (candidate (sdrop (2 * j) (stl (stl rs))))"
      by blast
    from True have "generateFood rs body = generateFood (stl (stl rs)) body"
      by (subst generateFood.simps) (simp add: Let_def)
    with j show ?thesis by (intro exI[of _ "Suc j"]) simp
  qed
qed

lemma generateFood_sound:
  assumes "generateFood rs body = Some r"
  shows "\<not> occupies body (fst r) \<and>
         (\<exists>k. fst r = candidate (sdrop (2 * k) rs) \<and> snd r = sdrop (2 * k + 2) rs)"
proof (rule generateFood.raw_induct
    [where P = "\<lambda>rs body r. \<not> occupies body (fst r) \<and>
         (\<exists>k. fst r = candidate (sdrop (2 * k) rs) \<and> snd r = sdrop (2 * k + 2) rs)",
     OF _ assms])
  fix gen :: "int stream \<Rightarrow> Position list \<Rightarrow> (Position \<times> int stream) option"
  fix rs body r
  assume IH: "\<And>rs body r. gen rs body = Some r \<Longrightarrow>
      \<not> occupies body (fst r) \<and>
      (\<exists>k. fst r = candidate (sdrop (2 * k) rs) \<and> snd r = sdrop (2 * k + 2) rs)"
  assume step: "(let newFood = candidate rs; rest = stl (stl rs)
      in if occupies body newFood then gen rest body else Some (newFood, rest)) = Some r"
  show "\<not> occupies body (fst r) \<and>
      (\<exists>k. fst r = candidate (sdrop (2 * k) rs) \<and> snd r = sdrop (2 * k + 2) rs)"
  proof (cases "occupies body (candidate rs)")
    case False
    with step have "r = (candidate rs, stl (stl rs))" by (simp add: Let_def)
    with False show ?thesis by (auto intro: exI[of _ 0])
  next
    case True
    with step have "gen (stl (stl rs)) body = Some r" by (simp add: Let_def)
    from IH[OF this] obtain k where k: "\<not> occupies body (fst r)"
      "fst r = candidate (sdrop (2 * k) (stl (stl rs)))" "snd r = sdrop (2 * k + 2) (stl (stl rs))"
      by blast
    show ?thesis using k by (auto intro: exI[of _ "Suc k"])
  qed
qed

lemma generateFood_first:
  "\<not> occupies body (candidate rs) \<Longrightarrow> generateFood rs body = Some (candidate rs, stl (stl rs))"
  by (subst generateFood.simps) (simp add: Let_def)

lemma generateFood_never:
  assumes "\<forall>k. occupies body (candidate (sdrop (2 * k) rs))"
  shows "generateFood rs body = None"
proof (rule ccontr)
  assume "generateFood rs body \<noteq> None"
  then obtain r where "generateFood rs body = Some r" by blast
  from generateFood_sound[OF this] assms show False by auto
qed

section \<open>The grid\<close>

lemma grid_image:
  "{p. inGrid p} = (\<lambda>(a, b). \<lparr>x = a, y = b\<rparr>) ` ({0..<GRID_SIZE} \<times> {0..<GRID_SIZE})"
proof (intro set_eqI iffI)
  fix p assume "p \<in> {p. inGrid p}"
  then have "(x p, y p) \<in> {0..<GRID_SIZE} \<times> {0..<GRID_SIZE}" by (simp add: inGrid_def)
  moreover have "p = (\<lambda>(a, b). \<lparr>x = a, y = b\<rparr>) (x p, y p)" by simp
  ultimately show "p \<in> (\<lambda>(a, b). \<lparr>x = a, y = b\<rparr>) ` ({0..<GRID_SIZE} \<times> {0..<GRID_SIZE})"
    by (rule rev_image_eqI)
next
  fix p assume "p \<in> (\<lambda>(a, b). \<lparr>x = a, y = b\<rparr>) ` ({0..<GRID_SIZE} \<times> {0..<GRID_SIZE})"
  then show "p \<in> {p. inGrid p}" by (auto simp: inGrid_def)
qed

lemma card_grid: "card {p. inGrid p} = nat (GRID_SIZE * GRID_SIZE)"
proof -
  have "inj_on (\<lambda>(a, b). \<lparr>x = a, y = b\<rparr>) ({0..<GRID_SIZE} \<times> {0..<GRID_SIZE})"
    by (auto simp: inj_on_def)
  then have "card {p. inGrid p} = card ({0..<GRID_SIZE} \<times> {0..<GRID_SIZE})"
    unfolding grid_image by (rule card_image)
  also have "\<dots> = nat (GRID_SIZE * GRID_SIZE)"
    by (simp add: GRID_SIZE_def)
  finally show ?thesis .
qed

lemma free_cell_exists:
  assumes "card (set body) < nat (GRID_SIZE * GRID_SIZE)"
  shows "\<exists>p. inGrid p \<and> p \<notin> set body"
proof (rule ccontr)
  assume "\<not> (\<exists>p. inGrid p \<and> p \<notin> set body)"
  then have "{p. inGrid p} \<subseteq> set body" by blast
  then have "card {p. inGrid p} \<le> card (set body)" by (intro card_mono) simp_all
  with assms show False by (simp add: card_grid)
qed

lemma candidate_sweep:
  "candidate (sdrop (2 * k) sweep) = \<lparr>x = int (k mod 20), y = int (k div 20 mod 20)\<rparr>"
proof -
  have "(2 * k + 1) div 40 = k div 20" by presburger
  then show ?thesis
   by (simp add: candidate_def sweep_def GRID_SIZE_def sdrop_snth)
qed

lemma sweep_covers: "inGrid p \<Longrightarrow> \<exists>k. candidate (sdrop (2 * k) sweep) = p"
proof -
  assume g: "inGrid p"
  let ?k = "nat (x p) + 20 * nat (y p)"
  from g have "int (?k mod 20) = x p" "int (?k div 20 mod 20) = y p"
    by (auto simp: inGrid_def GRID_SIZE_def)
  then have "candidate (sdrop (2 * ?k) sweep) = p"
    unfolding candidate_sweep by (simp add: Position_eq_iff)
  then show ?thesis ..
qed

lemma generateFood_result:
  assumes "generateFood rs body = Some (newFood, rest)"
    and "\<forall>v\<in>sset rs. 0 \<le> v \<and> v < GRID_SIZE"
  shows "newFood \<notin> set body \<and> inGrid newFood \<and> (\<forall>v\<in>sset rest. 0 \<le> v \<and> v < GRID_SIZE)"
proof -
  from generateFood_sound[OF assms(1)] obtain k where
    k: "\<not> occupies body newFood" "newFood = candidate (sdrop (2 * k) rs)"
       "rest = sdrop (2 * k + 2) rs"
    by auto
  from assms(2) have "inGrid (candidate (sdrop (2 * k) rs))"
    by (intro candidate_inGrid range_sdrop)
  moreover from assms(2) have "\<forall>v\<in>sset (sdrop (2 * k + 2) rs). 0 \<le> v \<and> v < GRID_SIZE"
    by (rule range_sdrop)
  ultimately show ?thesis using k by (simp add: occupies_iff)
qed

text \<open>
  Once the snake covers the whole grid, no stream of proposals within the grid ends the
  loop.
\<close>

lemma generateFood_full_grid:
  assumes "\<forall>p. inGrid p \<longrightarrow> p \<in> set body" and "\<forall>v\<in>sset rs. 0 \<le> v \<and> v < GRID_SIZE"
  shows "generateFood rs body = None"
proof (rule generateFood_never, rule allI)
  fix k
  from assms(2) have "inGrid (candidate (sdrop (2 * k) rs))"
    by (intro candidate_inGrid range_sdrop)
  with assms(1) show "occupies body (candidate (sdrop (2 * k) rs))"
    by (simp add: occupies_iff)
qed

section \<open>What one call of \<open>moveSnake\<close> does\<close>

text \<open>
  The three ways a tick of a live game can go, for a snake with head \<open>h\<close> and rest \<open>t\<close>:
  the moved head hits a wall or the body, it lands on the food, or it moves on.
\<close>

lemma moveSnake_crash:
  assumes "\<not> gameOver (gameState c)" "\<not> isPaused (gameState c)"
    and "snake (gameState c) = h # t"
    and "hitsWall (moveHead (direction (gameState c)) h)
         \<or> moveHead (direction (gameState c)) h \<in> set (h # t)"
  shows "moveSnake c = Some (c\<lparr>gameState := (gameState c)\<lparr>gameOver := True\<rparr>\<rparr>)"
  using assms(4) by (auto simp add: moveSnake_def Let_def assms(1-3) occupies_iff)

lemma moveSnake_eat:
  assumes "\<not> gameOver (gameState c)" "\<not> isPaused (gameState c)"
    and "snake (gameState c) = h # t"
    and "\<not> hitsWall (moveHead (direction (gameState c)) h)"
    and "moveHead (direction (gameState c)) h \<notin> set (h # t)"
    and "moveHead (direction (gameState c)) h = food (gameState c)"
  shows "moveSnake c =
    (case generateFood (random c) (food (gameState c) # h # t) of
       None \<Rightarrow> None
     | Some (newFood, rest) \<Rightarrow>
         Some (c\<lparr>gameState := (gameState c)\<lparr>snake := food (gameState c) # h # t,
                    food := newFood, score := score (gameState c) + 10\<rparr>,
                 highScore := (if score (gameState c) + 10 > highScore c
                               then score (gameState c) + 10 else highScore c),
                 random := rest\<rparr>))"
  using assms(4,5) unfolding assms(6)
  by (simp add: moveSnake_def Let_def assms(1-3,6) occupies_iff)

lemma moveSnake_move:
  assumes "\<not> gameOver (gameState c)" "\<not> isPaused (gameState c)"
    and "snake (gameState c) = h # t"
    and "\<not> hitsWall (moveHead (direction (gameState c)) h)"
    and "moveHead (direction (gameState c)) h \<notin> set (h # t)"
    and "moveHead (direction (gameState c)) h \<noteq> food (gameState c)"
  shows "moveSnake c =
    Some (c\<lparr>gameState := (gameState c)\<lparr>snake :=
            moveHead (direction (gameState c)) h # butlast (h # t)\<rparr>\<rparr>)"
proof -
  from assms(6) have
    "\<not> (x (moveHead (direction (gameState c)) h) = x (food (gameState c))
        \<and> y (moveHead (direction (gameState c)) h) = y (food (gameState c)))"
    by (simp add: Position_eq_iff)
  with assms(4,5) show ?thesis
    by (auto simp add: moveSnake_def Let_def assms(1-3) occupies_iff)
qed

section \<open>The invariant of the reachable states\<close>

lemma invariant_mount:
  "\<forall>v\<in>sset rs. 0 \<le> v \<and> v < GRID_SIZE \<Longrightarrow> invariant (mount h rs)"
  by (simp add: invariant_def mount_def INITIAL_SNAKE_def INITIAL_FOOD_def inGrid_def
      GRID_SIZE_def)

lemma invariant_startGame:
  assumes "invariant c" and "startGame c = Some c'"
  shows "invariant c'"
proof -
  from assms(2) obtain newFood rest where
    g: "generateFood (random c) INITIAL_SNAKE = Some (newFood, rest)"
    and c': "c' = c\<lparr>gameState :=
                    \<lparr>snake = INITIAL_SNAKE, food = newFood, direction = ''RIGHT'',
                     score = 0, gameOver = False, isPaused = False\<rparr>,
                  isPlaying := True, random := rest\<rparr>"
    by (auto simp: startGame_def split: option.splits)
  from assms(1) have "\<forall>v\<in>sset (random c). 0 \<le> v \<and> v < GRID_SIZE" by (simp add: invariant_def)
  from generateFood_result[OF g this] show ?thesis
    by (simp add: c' invariant_def INITIAL_SNAKE_def inGrid_def GRID_SIZE_def)
qed

lemma invariant_resetGame: "invariant c \<Longrightarrow> invariant (resetGame c)"
  by (simp add: invariant_def resetGame_def INITIAL_SNAKE_def INITIAL_FOOD_def inGrid_def
      GRID_SIZE_def)

lemma invariant_togglePause: "invariant c \<Longrightarrow> invariant (togglePause c)"
  by (simp add: invariant_def togglePause_def)

lemma invariant_handleKeyPress: "invariant c \<Longrightarrow> invariant (handleKeyPress key c)"
  by (auto simp: invariant_def handleKeyPress_def togglePause_def Let_def)

lemma invariant_moveSnake:
  assumes inv: "invariant c" and step: "moveSnake c = Some c'"
  shows "invariant c'"
proof (cases "gameOver (gameState c) \<or> isPaused (gameState c)")
  case True
  with step inv show ?thesis by (simp add: moveSnake_def)
next
  case False
  then have live: "\<not> gameOver (gameState c)" "\<not> isPaused (gameState c)" by simp_all
  from inv obtain h t where sn: "snake (gameState c) = h # t"
    by (cases "snake (gameState c)") (auto simp: invariant_def)
  define head where "head = moveHead (direction (gameState c)) h"
  show ?thesis
  proof (cases "hitsWall head \<or> head \<in> set (h # t)")
    case True
    then have "moveSnake c = Some (c\<lparr>gameState := (gameState c)\<lparr>gameOver := True\<rparr>\<rparr>)"
      unfolding head_def by (rule moveSnake_crash[OF live sn])
    with step inv show ?thesis by (auto simp: invariant_def)
  next
    case False
    then have hw: "\<not> hitsWall head" and hs: "head \<notin> set (h # t)" by simp_all
    from hw have hg: "inGrid head" by (simp add: inGrid_iff)
    show ?thesis
    proof (cases "head = food (gameState c)")
      case True
      from moveSnake_eat[OF live sn hw[unfolded head_def] hs[unfolded head_def]
          True[unfolded head_def]] step
      obtain newFood rest where
        g: "generateFood (random c) (food (gameState c) # h # t) = Some (newFood, rest)"
        and c': "c' = c\<lparr>gameState := (gameState c)\<lparr>snake := food (gameState c) # h # t,
                          food := newFood, score := score (gameState c) + 10\<rparr>,
                  highScore := (if score (gameState c) + 10 > highScore c
                                then score (gameState c) + 10 else highScore c),
                  random := rest\<rparr>"
        by (auto split: option.splits)
      from inv have "\<forall>v\<in>sset (random c). 0 \<le> v \<and> v < GRID_SIZE" by (simp add: invariant_def)
      from generateFood_result[OF g this] inv hg hs True show ?thesis
        by (simp add: c' invariant_def sn)
    next
      case False
      from moveSnake_move[OF live sn hw[unfolded head_def] hs[unfolded head_def]
          False[unfolded head_def]] step
      have c': "c' = c\<lparr>gameState := (gameState c)\<lparr>snake := head # butlast (h # t)\<rparr>\<rparr>"
        by (simp add: head_def)
      have eq: "head # butlast (h # t) = butlast (head # h # t)" by simp
      from False have nf: "food (gameState c) \<noteq> head" by auto
      from inv hs have d: "distinct (head # h # t)" by (simp add: invariant_def sn)
      from inv hg have a: "list_all inGrid (head # h # t)" by (simp add: invariant_def sn)
      from inv nf have f: "food (gameState c) \<notin> set (head # h # t)"
        by (simp add: invariant_def sn)
      have "distinct (butlast (head # h # t))" using d by (rule distinct_butlast)
      moreover have "list_all inGrid (butlast (head # h # t))"
        using a unfolding list_all_iff by (blast dest: in_set_butlastD)
      moreover have "food (gameState c) \<notin> set (butlast (head # h # t))"
        using f by (blast dest: in_set_butlastD)
      ultimately show ?thesis using inv unfolding c' eq invariant_def by simp
    qed
  qed
qed

lemma reachable_invariant: "reachable c \<Longrightarrow> invariant c"
  by (induction rule: reachable.induct)
     (auto intro: invariant_mount invariant_startGame invariant_moveSnake
        invariant_handleKeyPress invariant_togglePause invariant_resetGame)

text \<open>In the vocabulary of the specification: a tick of a reachable state is reachable.\<close>

lemma reachable_advanceTick:
  "reachable c \<Longrightarrow> advanceTick c = Some c' \<Longrightarrow> reachable c'"
  by (auto simp: advanceTick_def intro: reachable.ticked)

section \<open>Sample runs\<close>

lemma start_first_game:
  "startGame (mount 0 (sconst 0)) =
     Some (playing [\<lparr>x = 10, y = 10\<rparr>] \<lparr>x = 0, y = 0\<rparr> ''RIGHT'' (sconst 0))"
proof -
  have "\<not> occupies INITIAL_SNAKE (candidate (sconst 0))"
    by (simp add: occupies_def candidate_def INITIAL_SNAKE_def)
  from generateFood_first[OF this] show ?thesis
    by (simp add: startGame_def mount_def playing_def candidate_def INITIAL_SNAKE_def)
qed

lemma start_food_ahead:
  "startGame (mount 0 (11 ## 10 ## rs)) =
     Some (playing [\<lparr>x = 10, y = 10\<rparr>] \<lparr>x = 11, y = 10\<rparr> ''RIGHT'' rs)"
proof -
  have "\<not> occupies INITIAL_SNAKE (candidate (11 ## 10 ## rs))"
    by (simp add: occupies_def candidate_def INITIAL_SNAKE_def GRID_SIZE_def)
  from generateFood_first[OF this] show ?thesis
    by (simp add: startGame_def mount_def playing_def candidate_def INITIAL_SNAKE_def
        GRID_SIZE_def)
qed

lemma reachable_first_game:
  "reachable (playing [\<lparr>x = 10, y = 10\<rparr>] \<lparr>x = 0, y = 0\<rparr> ''RIGHT'' (sconst 0))"
proof -
  have "reachable (mount 0 (sconst 0))"
    by (rule reachable.mounted) (simp add: GRID_SIZE_def)
  then show ?thesis using start_first_game by (rule reachable.started)
qed

lemma reachable_food_ahead:
  assumes "0 \<le> a" "a < 20"
  shows "reachable (playing [\<lparr>x = 10, y = 10\<rparr>] \<lparr>x = 11, y = 10\<rparr> ''RIGHT'' (sconst a))"
proof -
  have "reachable (mount 0 (11 ## 10 ## sconst a))"
    using assms by (intro reachable.mounted) (simp add: GRID_SIZE_def)
  then show ?thesis using start_food_ahead by (rule reachable.started)
qed

lemma fed_tick:
  "moveSnake (playing [\<lparr>x = 10, y = 10\<rparr>] \<lparr>x = 11, y = 10\<rparr> ''RIGHT'' (sconst 0)) =
     Some \<lparr>gameState = \<lparr>snake = [\<lparr>x = 11, y = 10\<rparr>, \<lparr>x = 10, y = 10\<rparr>], food = \<lparr>x = 0, y = 0\<rparr>,
               direction = ''RIGHT'', score = 10, gameOver = False, isPaused = False\<rparr>,
           highScore = 10, isPlaying = True, random = sconst 0\<rparr>"
proof -
  have "\<not> occupies [\<lparr>x = 11, y = 10\<rparr>, \<lparr>x = 10, y = 10\<rparr>] (candidate (sconst 0))"
    by (simp add: occupies_def candidate_def)
  from generateFood_first[OF this] show ?thesis
    by (simp add: moveSnake_def playing_def moveHead_def hitsWall_def
        occupies_def candidate_def GRID_SIZE_def)
qed

lemma advanceTicks_Over:
  assumes "phase_of c = Over"
  shows "advanceTicks n c = Some c"
proof -
  from assms have "gameOver (gameState c)"
    by (simp add: phase_of_def split: if_splits)
  then have "advanceTick c = Some c"
    by (simp add: advanceTick_def moveSnake_frozen)
  then show ?thesis by (induction n) simp_all
qed

lemma starved_tick:
  "advanceTick (playing [\<lparr>x = 10, y = 10\<rparr>] \<lparr>x = 11, y = 10\<rparr> ''RIGHT'' (sconst 10)) = None"
proof -
  have "\<forall>k. occupies [\<lparr>x = 11, y = 10\<rparr>, \<lparr>x = 10, y = 10\<rparr>]
              (candidate (sdrop (2 * k) (sconst 10)))"
    by (simp add: occupies_def candidate_def GRID_SIZE_def)
  then have "generateFood (sconst 10) [\<lparr>x = 11, y = 10\<rparr>, \<lparr>x = 10, y = 10\<rparr>] = None"
    by (rule generateFood_never)
  then show ?thesis
    by (simp add: advanceTick_def moveSnake_def playing_def moveHead_def hitsWall_def
        occupies_def GRID_SIZE_def)
qed

section \<open>Keys that ask for a heading\<close>

lemma key_up:
  assumes "key = ''ArrowUp'' \<or> key = ''w'' \<or> key = ''W''"
  shows "handleKeyPress key c =
    (if \<not> isPlaying c \<or> gameOver (gameState c) then c
     else if direction (gameState c) \<noteq> ''DOWN'' \<and> direction (gameState c) \<noteq> ''UP''
       then c\<lparr>gameState := (gameState c)\<lparr>direction := ''UP''\<rparr>\<rparr> else c)"
  using assms by (elim disjE) (simp_all add: handleKeyPress_def Let_def)

lemma key_down:
  assumes "key = ''ArrowDown'' \<or> key = ''s'' \<or> key = ''S''"
  shows "handleKeyPress key c =
    (if \<not> isPlaying c \<or> gameOver (gameState c) then c
     else if direction (gameState c) \<noteq> ''UP'' \<and> direction (gameState c) \<noteq> ''DOWN''
       then c\<lparr>gameState := (gameState c)\<lparr>direction := ''DOWN''\<rparr>\<rparr> else c)"
  using assms by (elim disjE) (simp_all add: handleKeyPress_def Let_def)

lemma key_left:
  assumes "key = ''ArrowLeft'' \<or> key = ''a'' \<or> key = ''A''"
  shows "handleKeyPress key c =
    (if \<not> isPlaying c \<or> gameOver (gameState c) then c
     else if direction (gameState c) \<noteq> ''RIGHT'' \<and> direction (gameState c) \<noteq> ''LEFT''
       then c\<lparr>gameState := (gameState c)\<lparr>direction := ''LEFT''\<rparr>\<rparr> else c)"
  using assms by (elim disjE) (simp_all add: handleKeyPress_def Let_def)

lemma key_right:
  assumes "key = ''ArrowRight'' \<or> key = ''d'' \<or> key = ''D''"
  shows "handleKeyPress key c =
    (if \<not> isPlaying c \<or> gameOver (gameState c) then c
     else if direction (gameState c) \<noteq> ''LEFT'' \<and> direction (gameState c) \<noteq> ''RIGHT''
       then c\<lparr>gameState := (gameState c)\<lparr>direction := ''RIGHT''\<rparr>\<rparr> else c)"
  using assms by (elim disjE) (simp_all add: handleKeyPress_def Let_def)

lemma reverse_of_eq:
  "''UP'' = reverse_of d \<longleftrightarrow> d = ''DOWN''"
  "''DOWN'' = reverse_of d \<longleftrightarrow> d = ''UP''"
  "''LEFT'' = reverse_of d \<longleftrightarrow> d = ''RIGHT''"
  "''RIGHT'' = reverse_of d \<longleftrightarrow> d = ''LEFT''"
  by (auto simp: reverse_of_def)

lemma requested_cases:
  assumes "requested key = Some h"
  obtains
      (up) "key = ''ArrowUp'' \<or> key = ''w'' \<or> key = ''W''" "h = ''UP''"
    | (down) "key = ''ArrowDown'' \<or> key = ''s'' \<or> key = ''S''" "h = ''DOWN''"
    | (left) "key = ''ArrowLeft'' \<or> key = ''a'' \<or> key = ''A''" "h = ''LEFT''"
    | (right) "key = ''ArrowRight'' \<or> key = ''d'' \<or> key = ''D''" "h = ''RIGHT''"
  using assms unfolding requested_def by (auto split: if_splits)

section \<open>C1: the snake of a reachable state\<close>

text \<open>
  C1: in every reachable state the cells of the snake are pairwise distinct, and every
  cell \<open>(x, y)\<close> of the snake satisfies \<open>0 \<le> x < 20\<close> and \<open>0 \<le> y < 20\<close>.
\<close>

theorem reachable_snake_distinct_in_grid:
  "reachable c \<Longrightarrow>
   distinct (snake (gameState c)) \<and>
   (\<forall>p\<in>set (snake (gameState c)). 0 \<le> x p \<and> x p < 20 \<and> 0 \<le> y p \<and> y p < 20)"
  using reachable_invariant[of c]
  by (simp add: invariant_def list_all_iff inGrid_def GRID_SIZE_def)

theorem reachable_snake_distinct_in_grid_witness:
  "reachable
     \<lparr>gameState = \<lparr>snake = [\<lparr>x = 11, y = 10\<rparr>, \<lparr>x = 10, y = 10\<rparr>], food = \<lparr>x = 0, y = 0\<rparr>,
         direction = ''RIGHT'', score = 10, gameOver = False, isPaused = False\<rparr>,
      highScore = 10, isPlaying = True, random = sconst 0\<rparr> \<and>
   snake (gameState
     \<lparr>gameState = \<lparr>snake = [\<lparr>x = 11, y = 10\<rparr>, \<lparr>x = 10, y = 10\<rparr>], food = \<lparr>x = 0, y = 0\<rparr>,
         direction = ''RIGHT'', score = 10, gameOver = False, isPaused = False\<rparr>,
      highScore = 10, isPlaying = True, random = sconst 0\<rparr>)
     = [\<lparr>x = 11, y = 10\<rparr>, \<lparr>x = 10, y = 10\<rparr>] \<and>
   distinct [\<lparr>x = 11, y = 10\<rparr>, \<lparr>x = 10, y = 10\<rparr>] \<and>
   list_all (\<lambda>p. 0 \<le> x p \<and> x p < 20 \<and> 0 \<le> y p \<and> y p < 20)
     [\<lparr>x = 11, y = 10\<rparr>, \<lparr>x = 10, y = 10\<rparr>]"
proof -
  let ?s = "\<lparr>gameState = \<lparr>snake = [\<lparr>x = 11, y = 10\<rparr>, \<lparr>x = 10, y = 10\<rparr>],
         food = \<lparr>x = 0, y = 0\<rparr>, direction = ''RIGHT'', score = 10, gameOver = False,
         isPaused = False\<rparr>,
      highScore = 10, isPlaying = True, random = sconst 0\<rparr>"
  have "reachable (playing [\<lparr>x = 10, y = 10\<rparr>] \<lparr>x = 11, y = 10\<rparr> ''RIGHT'' (sconst 0))"
    by (rule reachable_food_ahead) simp_all
  then have r: "reachable ?s"
    using fed_tick by (rule reachable.ticked)
  have sn: "snake (gameState ?s) = [\<lparr>x = 11, y = 10\<rparr>, \<lparr>x = 10, y = 10\<rparr>]" by simp
  from reachable_snake_distinct_in_grid[OF r]
  have "distinct [\<lparr>x = 11, y = 10\<rparr>, \<lparr>x = 10, y = 10\<rparr>]"
    and "list_all (\<lambda>p. 0 \<le> x p \<and> x p < 20 \<and> 0 \<le> y p \<and> y p < 20)
      [\<lparr>x = 11, y = 10\<rparr>, \<lparr>x = 10, y = 10\<rparr>]"
    unfolding sn list_all_iff by blast+
  with r sn show ?thesis by blast
qed

section \<open>C2: eating\<close>

text \<open>
  C2, as stated: in every \<open>Running\<close> state in which the moved head lands on the food,
  a tick lengthens the snake by one, adds 10 to the score and produces a new food cell
  outside the grown snake. The new food comes from the unbounded loop of
  \<open>generateFood\<close>: in the state reached by starting a game whose first food is the cell
  ahead of the snake, with a random source that then keeps proposing \<open>(10, 10)\<close>, the
  tick never produces a state.
\<close>

theorem eating_may_never_return:
  "reachable (playing [\<lparr>x = 10, y = 10\<rparr>] \<lparr>x = 11, y = 10\<rparr> ''RIGHT'' (sconst 10)) \<and>
   phase_of (playing [\<lparr>x = 10, y = 10\<rparr>] \<lparr>x = 11, y = 10\<rparr> ''RIGHT'' (sconst 10)) = Running \<and>
   moveHead ''RIGHT'' \<lparr>x = 10, y = 10\<rparr> = \<lparr>x = 11, y = 10\<rparr> \<and>
   advanceTick (playing [\<lparr>x = 10, y = 10\<rparr>] \<lparr>x = 11, y = 10\<rparr> ''RIGHT'' (sconst 10)) = None"
proof -
  have "reachable (playing [\<lparr>x = 10, y = 10\<rparr>] \<lparr>x = 11, y = 10\<rparr> ''RIGHT'' (sconst 10))"
    by (rule reachable_food_ahead) simp_all
  with starved_tick show ?thesis
    by (simp add: Running_iff playing_sel moveHead_def)
qed

text \<open>
  C2, amended: in every reachable \<open>Running\<close> state in which the moved head lands on the
  food, if some round of the draws to come proposes a cell outside the grown snake, then a
  tick returns a state in which the snake is the old one with the food cell in front
  (one cell longer), the score is 10 higher, and the new food is outside the grown snake.
\<close>

theorem eating_grows_scores_and_respawns:
  assumes "reachable c" and "phase_of c = Running"
    and "moveHead (direction (gameState c)) (hd (snake (gameState c))) = food (gameState c)"
    and "\<exists>k. candidate (sdrop (2 * k) (random c))
               \<notin> set (food (gameState c) # snake (gameState c))"
  shows "\<exists>c'. advanceTick c = Some c' \<and>
           snake (gameState c') = food (gameState c) # snake (gameState c) \<and>
           length (snake (gameState c')) = length (snake (gameState c)) + 1 \<and>
           score (gameState c') = score (gameState c) + 10 \<and>
           food (gameState c') \<notin> set (snake (gameState c'))"
proof -
  from assms(1) have inv: "invariant c" by (rule reachable_invariant)
  then obtain h t where sn: "snake (gameState c) = h # t"
    by (cases "snake (gameState c)") (auto simp: invariant_def)
  from assms(2) have live: "\<not> gameOver (gameState c)" "\<not> isPaused (gameState c)"
    by (simp_all add: Running_iff)
  from assms(3) have hd: "moveHead (direction (gameState c)) h = food (gameState c)"
    by (simp add: sn)
  from inv have "\<not> hitsWall (food (gameState c))" "food (gameState c) \<notin> set (h # t)"
    by (simp_all add: invariant_def inGrid_iff sn)
  then have step: "moveSnake c =
    (case generateFood (random c) (food (gameState c) # h # t) of
       None \<Rightarrow> None
     | Some (newFood, rest) \<Rightarrow>
         Some (c\<lparr>gameState := (gameState c)\<lparr>snake := food (gameState c) # h # t,
                    food := newFood, score := score (gameState c) + 10\<rparr>,
                 highScore := (if score (gameState c) + 10 > highScore c
                               then score (gameState c) + 10 else highScore c),
                 random := rest\<rparr>))"
    by (intro moveSnake_eat[OF live sn] hd) (simp_all add: hd)
  from assms(4) obtain k where
    "\<not> occupies (food (gameState c) # h # t) (candidate (sdrop (2 * k) (random c)))"
    by (auto simp: occupies_iff sn)
  from generateFood_found[OF this] obtain newFood rest where
    "generateFood (random c) (food (gameState c) # h # t) = Some (newFood, rest)"
    "\<not> occupies (food (gameState c) # h # t) newFood"
    by blast
  with step show ?thesis
    by (simp add: advanceTick_Running[OF assms(2)] sn occupies_iff)
qed

theorem eating_grows_scores_and_respawns_witness:
  "reachable (playing [\<lparr>x = 10, y = 10\<rparr>] \<lparr>x = 11, y = 10\<rparr> ''RIGHT'' (sconst 0)) \<and>
   phase_of (playing [\<lparr>x = 10, y = 10\<rparr>] \<lparr>x = 11, y = 10\<rparr> ''RIGHT'' (sconst 0)) = Running \<and>
   (\<exists>c'. advanceTick (playing [\<lparr>x = 10, y = 10\<rparr>] \<lparr>x = 11, y = 10\<rparr> ''RIGHT'' (sconst 0))
            = Some c' \<and>
      snake (gameState c') = [\<lparr>x = 11, y = 10\<rparr>, \<lparr>x = 10, y = 10\<rparr>] \<and>
      length (snake (gameState c')) = 2 \<and>
      score (gameState c') = 10 \<and>
      food (gameState c') \<notin> set (snake (gameState c')))"
proof -
  let ?s = "playing [\<lparr>x = 10, y = 10\<rparr>] \<lparr>x = 11, y = 10\<rparr> ''RIGHT'' (sconst 0)"
  have r: "reachable ?s"
    by (rule reachable_food_ahead) simp_all
  have p: "phase_of ?s = Running" by (simp add: phase_of_def playing_sel)
  have m: "moveHead (direction (gameState ?s)) (hd (snake (gameState ?s))) = food (gameState ?s)"
    by (simp add: playing_sel moveHead_def)
  have d: "\<exists>k. candidate (sdrop (2 * k) (random ?s))
      \<notin> set (food (gameState ?s) # snake (gameState ?s))"
    by (rule exI[of _ 0]) (simp add: playing_sel candidate_def)
  from eating_grows_scores_and_respawns[OF r p m d] r p show ?thesis
    by (auto simp: playing_sel)
qed

section \<open>C3: moving without eating\<close>

text \<open>
  C3: in every \<open>Running\<close> state with a snake of head \<open>h\<close> and rest \<open>t\<close> in which the moved
  head stays inside the grid, is not on the body and is not on the food, a tick keeps the
  length of the snake, puts the new head one cell from \<open>h\<close> along the heading (\<open>UP\<close>
  decrements \<open>y\<close>, \<open>DOWN\<close> increments \<open>y\<close>, \<open>LEFT\<close> decrements \<open>x\<close>, \<open>RIGHT\<close> increments
  \<open>x\<close>) and drops the last cell; nothing else in the state changes.
\<close>

theorem moving_keeps_length:
  assumes "phase_of c = Running" and "snake (gameState c) = h # t"
    and "\<not> hitsWall (moveHead (direction (gameState c)) h)"
    and "moveHead (direction (gameState c)) h \<notin> set (h # t)"
    and "moveHead (direction (gameState c)) h \<noteq> food (gameState c)"
  shows "\<exists>c'. advanceTick c = Some c' \<and>
           c' = c\<lparr>gameState := (gameState c)\<lparr>snake :=
                  moveHead (direction (gameState c)) h # butlast (h # t)\<rparr>\<rparr> \<and>
           length (snake (gameState c')) = length (h # t) \<and>
           hd (snake (gameState c')) = moveHead (direction (gameState c)) h \<and>
           tl (snake (gameState c')) = butlast (h # t) \<and>
           (direction (gameState c) = ''UP''
              \<and> hd (snake (gameState c')) = \<lparr>x = x h, y = y h - 1\<rparr>
            \<or> direction (gameState c) = ''DOWN''
              \<and> hd (snake (gameState c')) = \<lparr>x = x h, y = y h + 1\<rparr>
            \<or> direction (gameState c) = ''LEFT''
              \<and> hd (snake (gameState c')) = \<lparr>x = x h - 1, y = y h\<rparr>
            \<or> direction (gameState c) = ''RIGHT''
              \<and> hd (snake (gameState c')) = \<lparr>x = x h + 1, y = y h\<rparr>)"
proof -
  from assms(1) have live: "\<not> gameOver (gameState c)" "\<not> isPaused (gameState c)"
    by (simp_all add: Running_iff)
  have step: "advanceTick c = Some (c\<lparr>gameState := (gameState c)\<lparr>snake :=
                  moveHead (direction (gameState c)) h # butlast (h # t)\<rparr>\<rparr>)"
    unfolding advanceTick_Running[OF assms(1)]
    by (rule moveSnake_move[OF live assms(2-5)])
  from assms(4) have "moveHead (direction (gameState c)) h \<noteq> h" by auto
  then have dir:
    "direction (gameState c) = ''UP''
       \<and> moveHead (direction (gameState c)) h = \<lparr>x = x h, y = y h - 1\<rparr>
     \<or> direction (gameState c) = ''DOWN''
       \<and> moveHead (direction (gameState c)) h = \<lparr>x = x h, y = y h + 1\<rparr>
     \<or> direction (gameState c) = ''LEFT''
       \<and> moveHead (direction (gameState c)) h = \<lparr>x = x h - 1, y = y h\<rparr>
     \<or> direction (gameState c) = ''RIGHT''
       \<and> moveHead (direction (gameState c)) h = \<lparr>x = x h + 1, y = y h\<rparr>"
    by (auto simp: moveHead_def Position_eq_iff split: if_splits)
  from step dir show ?thesis by simp
qed

theorem moving_keeps_length_witness:
  "advanceTick (playing [\<lparr>x = 10, y = 10\<rparr>, \<lparr>x = 9, y = 10\<rparr>] \<lparr>x = 0, y = 0\<rparr> ''UP'' (sconst 0)) =
     Some (playing [\<lparr>x = 10, y = 9\<rparr>, \<lparr>x = 10, y = 10\<rparr>] \<lparr>x = 0, y = 0\<rparr> ''UP'' (sconst 0)) \<and>
   advanceTick (playing [\<lparr>x = 10, y = 10\<rparr>] \<lparr>x = 0, y = 0\<rparr> ''RIGHT'' (sconst 0)) =
     Some (playing [\<lparr>x = 11, y = 10\<rparr>] \<lparr>x = 0, y = 0\<rparr> ''RIGHT'' (sconst 0))"
proof -
  let ?s = "playing [\<lparr>x = 10, y = 10\<rparr>, \<lparr>x = 9, y = 10\<rparr>] \<lparr>x = 0, y = 0\<rparr> ''UP'' (sconst 0)"
  let ?r = "playing [\<lparr>x = 10, y = 10\<rparr>] \<lparr>x = 0, y = 0\<rparr> ''RIGHT'' (sconst 0)"
  have "phase_of ?s = Running" "snake (gameState ?s) = \<lparr>x = 10, y = 10\<rparr> # [\<lparr>x = 9, y = 10\<rparr>]"
    "\<not> hitsWall (moveHead (direction (gameState ?s)) \<lparr>x = 10, y = 10\<rparr>)"
    "moveHead (direction (gameState ?s)) \<lparr>x = 10, y = 10\<rparr>
       \<notin> set (\<lparr>x = 10, y = 10\<rparr> # [\<lparr>x = 9, y = 10\<rparr>])"
    "moveHead (direction (gameState ?s)) \<lparr>x = 10, y = 10\<rparr> \<noteq> food (gameState ?s)"
    by (simp_all add: Running_iff playing_sel moveHead_def hitsWall_def GRID_SIZE_def)
  from moving_keeps_length[OF this]
  have a: "advanceTick ?s =
     Some (playing [\<lparr>x = 10, y = 9\<rparr>, \<lparr>x = 10, y = 10\<rparr>] \<lparr>x = 0, y = 0\<rparr> ''UP'' (sconst 0))"
    by (simp add: playing_def moveHead_def)
  have "phase_of ?r = Running" "snake (gameState ?r) = \<lparr>x = 10, y = 10\<rparr> # []"
    "\<not> hitsWall (moveHead (direction (gameState ?r)) \<lparr>x = 10, y = 10\<rparr>)"
    "moveHead (direction (gameState ?r)) \<lparr>x = 10, y = 10\<rparr> \<notin> set (\<lparr>x = 10, y = 10\<rparr> # [])"
    "moveHead (direction (gameState ?r)) \<lparr>x = 10, y = 10\<rparr> \<noteq> food (gameState ?r)"
    by (simp_all add: Running_iff playing_sel moveHead_def hitsWall_def GRID_SIZE_def)
  from moving_keeps_length[OF this]
  have b: "advanceTick ?r =
     Some (playing [\<lparr>x = 11, y = 10\<rparr>] \<lparr>x = 0, y = 0\<rparr> ''RIGHT'' (sconst 0))"
    by (simp add: playing_def moveHead_def)
  from a b show ?thesis ..
qed

section \<open>C4: a tick outside \<open>Running\<close>\<close>




section \<open>C5: heading changes\<close>

text \<open>
  C5, as stated: a request for a heading is a no-op whenever the state is not
  \<open>Running\<close>. The guard of \<open>handleKeyPress\<close> is \<^verbatim>\<open>!isPlaying || gameState.gameOver\<close>: it
  lets a paused game through, and there a key turns the snake.
\<close>

theorem heading_changes_while_paused:
  "reachable (togglePause (playing [\<lparr>x = 10, y = 10\<rparr>] \<lparr>x = 0, y = 0\<rparr> ''RIGHT'' (sconst 0))) \<and>
   phase_of (togglePause (playing [\<lparr>x = 10, y = 10\<rparr>] \<lparr>x = 0, y = 0\<rparr> ''RIGHT'' (sconst 0)))
     = Paused \<and>
   requested ''ArrowUp'' = Some ''UP'' \<and>
   direction (gameState (togglePause
     (playing [\<lparr>x = 10, y = 10\<rparr>] \<lparr>x = 0, y = 0\<rparr> ''RIGHT'' (sconst 0)))) = ''RIGHT'' \<and>
   direction (gameState (handleKeyPress ''ArrowUp'' (togglePause
     (playing [\<lparr>x = 10, y = 10\<rparr>] \<lparr>x = 0, y = 0\<rparr> ''RIGHT'' (sconst 0))))) = ''UP'' \<and>
   handleKeyPress ''ArrowUp'' (togglePause
     (playing [\<lparr>x = 10, y = 10\<rparr>] \<lparr>x = 0, y = 0\<rparr> ''RIGHT'' (sconst 0)))
   \<noteq> togglePause (playing [\<lparr>x = 10, y = 10\<rparr>] \<lparr>x = 0, y = 0\<rparr> ''RIGHT'' (sconst 0))"
proof -
  have "reachable (togglePause
      (playing [\<lparr>x = 10, y = 10\<rparr>] \<lparr>x = 0, y = 0\<rparr> ''RIGHT'' (sconst 0)))"
    using reachable_first_game by (rule reachable.pause_toggled)
  then show ?thesis
    by (simp add: phase_of_def togglePause_def playing_def requested_def handleKeyPress_def)
qed

text \<open>
  C5, amended: a key that asks for the heading \<open>h\<close> changes nothing when the engine is
  \<open>Idle\<close> or \<open>Over\<close>, or when \<open>h\<close> is the current heading or its reverse; otherwise, that is
  in \<open>Running\<close> and also in \<open>Paused\<close>, it sets the heading to \<open>h\<close> and leaves every other
  field unchanged.
\<close>

theorem handleKeyPress_heading:
  assumes "requested key = Some h"
  shows "handleKeyPress key c =
    (if phase_of c \<in> {Running, Paused} \<and> h \<noteq> direction (gameState c)
        \<and> h \<noteq> reverse_of (direction (gameState c))
     then c\<lparr>gameState := (gameState c)\<lparr>direction := h\<rparr>\<rparr> else c)"
  using assms
proof (cases rule: requested_cases)
  case up
  show ?thesis unfolding key_up[OF up(1)] accepting_iff up(2) reverse_of_eq by auto
next
  case down
  show ?thesis unfolding key_down[OF down(1)] accepting_iff down(2) reverse_of_eq by auto
next
  case left
  show ?thesis unfolding key_left[OF left(1)] accepting_iff left(2) reverse_of_eq by auto
next
  case right
  show ?thesis unfolding key_right[OF right(1)] accepting_iff right(2) reverse_of_eq by auto
qed

theorem handleKeyPress_heading_witness:
  "handleKeyPress ''ArrowUp'' (playing [\<lparr>x = 10, y = 10\<rparr>] \<lparr>x = 0, y = 0\<rparr> ''RIGHT'' (sconst 0))
     = playing [\<lparr>x = 10, y = 10\<rparr>] \<lparr>x = 0, y = 0\<rparr> ''UP'' (sconst 0) \<and>
   handleKeyPress ''a'' (playing [\<lparr>x = 10, y = 10\<rparr>] \<lparr>x = 0, y = 0\<rparr> ''RIGHT'' (sconst 0))
     = playing [\<lparr>x = 10, y = 10\<rparr>] \<lparr>x = 0, y = 0\<rparr> ''RIGHT'' (sconst 0) \<and>
   handleKeyPress ''D'' (playing [\<lparr>x = 10, y = 10\<rparr>] \<lparr>x = 0, y = 0\<rparr> ''RIGHT'' (sconst 0))
     = playing [\<lparr>x = 10, y = 10\<rparr>] \<lparr>x = 0, y = 0\<rparr> ''RIGHT'' (sconst 0) \<and>
   handleKeyPress ''s'' (mount 0 (sconst 0)) = mount 0 (sconst 0)"
proof -
  let ?s = "playing [\<lparr>x = 10, y = 10\<rparr>] \<lparr>x = 0, y = 0\<rparr> ''RIGHT'' (sconst 0)"
  have "requested ''ArrowUp'' = Some ''UP''" by (simp add: requested_def)
  from handleKeyPress_heading[OF this, of ?s]
  have a: "handleKeyPress ''ArrowUp'' ?s
      = playing [\<lparr>x = 10, y = 10\<rparr>] \<lparr>x = 0, y = 0\<rparr> ''UP'' (sconst 0)"
    by (simp add: phase_of_def playing_def reverse_of_def)
  have "requested ''a'' = Some ''LEFT''" by (simp add: requested_def)
  from handleKeyPress_heading[OF this, of ?s]
  have b: "handleKeyPress ''a'' ?s = ?s"
    by (simp add: playing_sel reverse_of_def)
  have "requested ''D'' = Some ''RIGHT''" by (simp add: requested_def)
  from handleKeyPress_heading[OF this, of ?s]
  have c: "handleKeyPress ''D'' ?s = ?s"
    by (simp add: playing_sel)
  have "requested ''s'' = Some ''DOWN''" by (simp add: requested_def)
  from handleKeyPress_heading[OF this, of "mount 0 (sconst 0)"]
  have d: "handleKeyPress ''s'' (mount 0 (sconst 0)) = mount 0 (sconst 0)"
    by (simp add: phase_of_def mount_def)
  from a b c d show ?thesis by simp
qed

section \<open>C6: the scenario of eating at once\<close>

text \<open>
  C6, as stated: one tick yields the snake \<open>[(11,10)]\<close> and a new food cell. The tick
  eats, so the old head stays behind the new one and the snake has two cells; and with a
  random source that keeps proposing \<open>(10, 10)\<close> the tick never produces a state.
\<close>

theorem scenario_snake_grows:
  "reachable (playing [\<lparr>x = 10, y = 10\<rparr>] \<lparr>x = 11, y = 10\<rparr> ''RIGHT'' (sconst 0)) \<and>
   advanceTick (playing [\<lparr>x = 10, y = 10\<rparr>] \<lparr>x = 11, y = 10\<rparr> ''RIGHT'' (sconst 0)) =
     Some \<lparr>gameState = \<lparr>snake = [\<lparr>x = 11, y = 10\<rparr>, \<lparr>x = 10, y = 10\<rparr>], food = \<lparr>x = 0, y = 0\<rparr>,
               direction = ''RIGHT'', score = 10, gameOver = False, isPaused = False\<rparr>,
           highScore = 10, isPlaying = True, random = sconst 0\<rparr> \<and>
   map_option (snake \<circ> gameState)
     (advanceTick (playing [\<lparr>x = 10, y = 10\<rparr>] \<lparr>x = 11, y = 10\<rparr> ''RIGHT'' (sconst 0)))
   \<noteq> Some [\<lparr>x = 11, y = 10\<rparr>] \<and>
   advanceTick (playing [\<lparr>x = 10, y = 10\<rparr>] \<lparr>x = 11, y = 10\<rparr> ''RIGHT'' (sconst 10)) = None"
proof -
  have "\<not> occupies [\<lparr>x = 11, y = 10\<rparr>, \<lparr>x = 10, y = 10\<rparr>] (candidate (sconst 0))"
    by (simp add: occupies_def candidate_def)
  from generateFood_first[OF this]
  have "advanceTick (playing [\<lparr>x = 10, y = 10\<rparr>] \<lparr>x = 11, y = 10\<rparr> ''RIGHT'' (sconst 0)) =
     Some \<lparr>gameState = \<lparr>snake = [\<lparr>x = 11, y = 10\<rparr>, \<lparr>x = 10, y = 10\<rparr>], food = \<lparr>x = 0, y = 0\<rparr>,
               direction = ''RIGHT'', score = 10, gameOver = False, isPaused = False\<rparr>,
           highScore = 10, isPlaying = True, random = sconst 0\<rparr>"
    by (simp add: advanceTick_def moveSnake_def playing_def moveHead_def hitsWall_def
        occupies_def candidate_def GRID_SIZE_def)
  moreover have
    "reachable (playing [\<lparr>x = 10, y = 10\<rparr>] \<lparr>x = 11, y = 10\<rparr> ''RIGHT'' (sconst 0))"
    by (rule reachable_food_ahead) simp_all
  ultimately show ?thesis using starved_tick by simp
qed

text \<open>
  C6, amended: from a \<open>Running\<close> state with snake \<open>[(10,10)]\<close>, heading \<open>RIGHT\<close>, food at
  \<open>(11,10)\<close> and score 0, if some round of the draws to come proposes a cell other than
  \<open>(11,10)\<close> and \<open>(10,10)\<close>, one tick yields the snake \<open>[(11,10), (10,10)]\<close>, score 10, a
  new food cell that is not a cell of the snake, and the game is not over.
\<close>

theorem scenario_eat:
  assumes "phase_of c = Running"
    and "snake (gameState c) = [\<lparr>x = 10, y = 10\<rparr>]"
    and "direction (gameState c) = ''RIGHT''"
    and "food (gameState c) = \<lparr>x = 11, y = 10\<rparr>"
    and "score (gameState c) = 0"
    and "\<exists>k. candidate (sdrop (2 * k) (random c))
               \<notin> set [\<lparr>x = 11, y = 10\<rparr>, \<lparr>x = 10, y = 10\<rparr>]"
  shows "\<exists>c'. advanceTick c = Some c' \<and>
           snake (gameState c') = [\<lparr>x = 11, y = 10\<rparr>, \<lparr>x = 10, y = 10\<rparr>] \<and>
           score (gameState c') = 10 \<and>
           food (gameState c') \<notin> set (snake (gameState c')) \<and>
           \<not> gameOver (gameState c') \<and>
           phase_of c' = Running"
proof -
  from assms(1) have live: "\<not> gameOver (gameState c)" "\<not> isPaused (gameState c)"
    and pl: "isPlaying c"
    by (simp_all add: Running_iff)
  have mv: "moveHead (direction (gameState c)) \<lparr>x = 10, y = 10\<rparr> = food (gameState c)"
    by (simp add: assms(3,4) moveHead_def)
  have step: "moveSnake c =
    (case generateFood (random c) (food (gameState c) # [\<lparr>x = 10, y = 10\<rparr>]) of
       None \<Rightarrow> None
     | Some (newFood, rest) \<Rightarrow>
         Some (c\<lparr>gameState := (gameState c)\<lparr>snake := food (gameState c) # [\<lparr>x = 10, y = 10\<rparr>],
                    food := newFood, score := score (gameState c) + 10\<rparr>,
                 highScore := (if score (gameState c) + 10 > highScore c
                               then score (gameState c) + 10 else highScore c),
                 random := rest\<rparr>))"
    by (rule moveSnake_eat[OF live assms(2) _ _ mv])
       (simp_all add: mv assms(4) hitsWall_def GRID_SIZE_def)
  from assms(6) obtain k where
    "\<not> occupies [\<lparr>x = 11, y = 10\<rparr>, \<lparr>x = 10, y = 10\<rparr>] (candidate (sdrop (2 * k) (random c)))"
    unfolding occupies_iff by blast
  from generateFood_found[OF this] obtain newFood rest where
    "generateFood (random c) [\<lparr>x = 11, y = 10\<rparr>, \<lparr>x = 10, y = 10\<rparr>] = Some (newFood, rest)"
    "\<not> occupies [\<lparr>x = 11, y = 10\<rparr>, \<lparr>x = 10, y = 10\<rparr>] newFood"
    by blast
  with step live pl show ?thesis
    unfolding occupies_iff
    by (simp add: advanceTick_Running[OF assms(1)] assms(4,5) phase_of_def)
qed

theorem scenario_eat_witness:
  "\<exists>c'. advanceTick (playing [\<lparr>x = 10, y = 10\<rparr>] \<lparr>x = 11, y = 10\<rparr> ''RIGHT'' (sconst 0))
           = Some c' \<and>
     snake (gameState c') = [\<lparr>x = 11, y = 10\<rparr>, \<lparr>x = 10, y = 10\<rparr>] \<and>
     score (gameState c') = 10 \<and>
     food (gameState c') \<notin> set (snake (gameState c')) \<and>
     \<not> gameOver (gameState c') \<and>
     phase_of c' = Running"
proof -
  let ?s = "playing [\<lparr>x = 10, y = 10\<rparr>] \<lparr>x = 11, y = 10\<rparr> ''RIGHT'' (sconst 0)"
  have d: "\<exists>k. candidate (sdrop (2 * k) (random ?s))
      \<notin> set [\<lparr>x = 11, y = 10\<rparr>, \<lparr>x = 10, y = 10\<rparr>]"
    by (rule exI[of _ 0]) (simp add: playing_sel candidate_def)
  have "phase_of ?s = Running" "snake (gameState ?s) = [\<lparr>x = 10, y = 10\<rparr>]"
    "direction (gameState ?s) = ''RIGHT''" "food (gameState ?s) = \<lparr>x = 11, y = 10\<rparr>"
    "score (gameState ?s) = 0"
    by (simp_all add: Running_iff playing_sel)
  then show ?thesis using d by (rule scenario_eat)
qed

section \<open>C7: leaving the grid\<close>

text \<open>
  C7: in every \<open>Running\<close> state in which the moved head is outside the grid on either
  axis, a tick sets \<open>gameOver\<close> and changes nothing else, the engine is then \<open>Over\<close>, and
  any number of further ticks leaves that state unchanged.
\<close>

theorem wall_exit_ends_game:
  assumes "phase_of c = Running" and "snake (gameState c) = h # t"
    and "hitsWall (moveHead (direction (gameState c)) h)"
  shows "advanceTick c = Some (c\<lparr>gameState := (gameState c)\<lparr>gameOver := True\<rparr>\<rparr>) \<and>
         phase_of (c\<lparr>gameState := (gameState c)\<lparr>gameOver := True\<rparr>\<rparr>) = Over \<and>
         (\<forall>n. advanceTicks n (c\<lparr>gameState := (gameState c)\<lparr>gameOver := True\<rparr>\<rparr>)
               = Some (c\<lparr>gameState := (gameState c)\<lparr>gameOver := True\<rparr>\<rparr>))"
proof -
  from assms(1) have live: "\<not> gameOver (gameState c)" "\<not> isPaused (gameState c)"
    and pl: "isPlaying c"
    by (simp_all add: Running_iff)
  have "advanceTick c = Some (c\<lparr>gameState := (gameState c)\<lparr>gameOver := True\<rparr>\<rparr>)"
    unfolding advanceTick_Running[OF assms(1)]
    using assms(3) by (intro moveSnake_crash[OF live assms(2)]) simp
  moreover note over = phase_of_crashed[OF pl]
  ultimately show ?thesis using advanceTicks_Over[OF over] by simp
qed

theorem wall_exit_ends_game_witness:
  "advanceTick (playing [\<lparr>x = 19, y = 5\<rparr>] \<lparr>x = 0, y = 0\<rparr> ''RIGHT'' (sconst 0)) =
     Some ((playing [\<lparr>x = 19, y = 5\<rparr>] \<lparr>x = 0, y = 0\<rparr> ''RIGHT'' (sconst 0))
       \<lparr>gameState := (gameState (playing [\<lparr>x = 19, y = 5\<rparr>] \<lparr>x = 0, y = 0\<rparr> ''RIGHT'' (sconst 0)))
          \<lparr>gameOver := True\<rparr>\<rparr>) \<and>
   advanceTicks 3 ((playing [\<lparr>x = 19, y = 5\<rparr>] \<lparr>x = 0, y = 0\<rparr> ''RIGHT'' (sconst 0))
       \<lparr>gameState := (gameState (playing [\<lparr>x = 19, y = 5\<rparr>] \<lparr>x = 0, y = 0\<rparr> ''RIGHT'' (sconst 0)))
          \<lparr>gameOver := True\<rparr>\<rparr>) =
     Some ((playing [\<lparr>x = 19, y = 5\<rparr>] \<lparr>x = 0, y = 0\<rparr> ''RIGHT'' (sconst 0))
       \<lparr>gameState := (gameState (playing [\<lparr>x = 19, y = 5\<rparr>] \<lparr>x = 0, y = 0\<rparr> ''RIGHT'' (sconst 0)))
          \<lparr>gameOver := True\<rparr>\<rparr>) \<and>
   advanceTick (playing [\<lparr>x = 0, y = 10\<rparr>] \<lparr>x = 15, y = 15\<rparr> ''LEFT'' (sconst 0)) =
     Some ((playing [\<lparr>x = 0, y = 10\<rparr>] \<lparr>x = 15, y = 15\<rparr> ''LEFT'' (sconst 0))
       \<lparr>gameState := (gameState (playing [\<lparr>x = 0, y = 10\<rparr>] \<lparr>x = 15, y = 15\<rparr> ''LEFT'' (sconst 0)))
          \<lparr>gameOver := True\<rparr>\<rparr>) \<and>
   phase_of ((playing [\<lparr>x = 0, y = 10\<rparr>] \<lparr>x = 15, y = 15\<rparr> ''LEFT'' (sconst 0))
       \<lparr>gameState := (gameState (playing [\<lparr>x = 0, y = 10\<rparr>] \<lparr>x = 15, y = 15\<rparr> ''LEFT'' (sconst 0)))
          \<lparr>gameOver := True\<rparr>\<rparr>) = Over"
proof -
  let ?s = "playing [\<lparr>x = 19, y = 5\<rparr>] \<lparr>x = 0, y = 0\<rparr> ''RIGHT'' (sconst 0)"
  let ?r = "playing [\<lparr>x = 0, y = 10\<rparr>] \<lparr>x = 15, y = 15\<rparr> ''LEFT'' (sconst 0)"
  have "phase_of ?s = Running" "snake (gameState ?s) = \<lparr>x = 19, y = 5\<rparr> # []"
    "hitsWall (moveHead (direction (gameState ?s)) \<lparr>x = 19, y = 5\<rparr>)"
    by (simp_all add: Running_iff playing_sel moveHead_def hitsWall_def GRID_SIZE_def)
  note a = wall_exit_ends_game[OF this]
  have "phase_of ?r = Running" "snake (gameState ?r) = \<lparr>x = 0, y = 10\<rparr> # []"
    "hitsWall (moveHead (direction (gameState ?r)) \<lparr>x = 0, y = 10\<rparr>)"
    by (simp_all add: Running_iff playing_sel moveHead_def hitsWall_def GRID_SIZE_def)
  note b = wall_exit_ends_game[OF this]
  from a b show ?thesis by blast
qed

section \<open>C8: reset\<close>

text \<open>
  C8: from every state, \<open>resetGame\<close> yields a game state that agrees with the one any
  \<open>startGame\<close> produces in every field but the food (the snake is the single default
  cell, the heading is \<open>RIGHT\<close>, the score is 0, the game is neither over nor paused), and
  the engine is \<open>Idle\<close>.
\<close>

theorem resetGame_defaults:
  assumes "startGame c0 = Some c1"
  shows "snake (gameState (resetGame c)) = snake (gameState c1) \<and>
         direction (gameState (resetGame c)) = direction (gameState c1) \<and>
         score (gameState (resetGame c)) = score (gameState c1) \<and>
         gameOver (gameState (resetGame c)) = gameOver (gameState c1) \<and>
         isPaused (gameState (resetGame c)) = isPaused (gameState c1) \<and>
         gameState (resetGame c) =
           \<lparr>snake = [\<lparr>x = 10, y = 10\<rparr>], food = \<lparr>x = 15, y = 15\<rparr>, direction = ''RIGHT'',
            score = 0, gameOver = False, isPaused = False\<rparr> \<and>
         phase_of (resetGame c) = Idle"
  using assms
  by (auto simp: startGame_def resetGame_def phase_of_def INITIAL_SNAKE_def INITIAL_FOOD_def
      split: option.splits)

theorem resetGame_defaults_witness:
  "gameState (resetGame (playing [\<lparr>x = 3, y = 4\<rparr>, \<lparr>x = 3, y = 5\<rparr>] \<lparr>x = 7, y = 7\<rparr> ''UP'' (sconst 0)))
     = \<lparr>snake = [\<lparr>x = 10, y = 10\<rparr>], food = \<lparr>x = 15, y = 15\<rparr>, direction = ''RIGHT'',
        score = 0, gameOver = False, isPaused = False\<rparr> \<and>
   phase_of (resetGame
     (playing [\<lparr>x = 3, y = 4\<rparr>, \<lparr>x = 3, y = 5\<rparr>] \<lparr>x = 7, y = 7\<rparr> ''UP'' (sconst 0))) = Idle \<and>
   snake (gameState (resetGame
     (playing [\<lparr>x = 3, y = 4\<rparr>, \<lparr>x = 3, y = 5\<rparr>] \<lparr>x = 7, y = 7\<rparr> ''UP'' (sconst 0))))
     = snake (gameState (playing [\<lparr>x = 10, y = 10\<rparr>] \<lparr>x = 0, y = 0\<rparr> ''RIGHT'' (sconst 0))) \<and>
   direction (gameState (resetGame
     (playing [\<lparr>x = 3, y = 4\<rparr>, \<lparr>x = 3, y = 5\<rparr>] \<lparr>x = 7, y = 7\<rparr> ''UP'' (sconst 0))))
     = direction (gameState (playing [\<lparr>x = 10, y = 10\<rparr>] \<lparr>x = 0, y = 0\<rparr> ''RIGHT'' (sconst 0)))"
  using resetGame_defaults[OF start_first_game,
      of "playing [\<lparr>x = 3, y = 4\<rparr>, \<lparr>x = 3, y = 5\<rparr>] \<lparr>x = 7, y = 7\<rparr> ''UP'' (sconst 0)"]
  by blast

section \<open>C9: the food generator\<close>

text \<open>
  C9, as stated: for every snake that occupies fewer than \<open>GRID_SIZE * GRID_SIZE = 400\<close>
  cells, the rejection sampling of \<open>generateFood\<close> terminates and returns a cell that no
  cell of the snake occupies. The loop has no bound and no fallback, so whether it ends
  depends on the draws: with a source that keeps proposing the cell \<open>(10, 10)\<close> and the
  one-cell snake at \<open>(10, 10)\<close>, it never returns.
\<close>

theorem generateFood_may_loop:
  "generateFood (sconst 10) [\<lparr>x = 10, y = 10\<rparr>] = None"
proof (rule ccontr)
  assume "generateFood (sconst 10) [\<lparr>x = 10, y = 10\<rparr>] \<noteq> None"
  then obtain r where "generateFood (sconst 10) [\<lparr>x = 10, y = 10\<rparr>] = Some r" by blast
  from generateFood_sound[OF this] show False
    by (auto simp: occupies_def candidate_def GRID_SIZE_def)
qed

text \<open>
  C9, amended: for every snake that occupies fewer than 400 cells and every sequence of
  draws in which each cell of the grid is proposed at some round, \<open>generateFood\<close>
  terminates and returns a cell that no cell of the snake occupies.
\<close>

theorem generateFood_terminates_free:
  assumes "card (set body) < nat (GRID_SIZE * GRID_SIZE)"
    and "\<forall>p. inGrid p \<longrightarrow> (\<exists>k. candidate (sdrop (2 * k) rs) = p)"
  shows "\<exists>newFood rest. generateFood rs body = Some (newFood, rest)
           \<and> \<not> occupies body newFood \<and> newFood \<notin> set body"
proof -
  from free_cell_exists[OF assms(1)] obtain p where p: "inGrid p" "p \<notin> set body" by blast
  with assms(2) obtain k where "candidate (sdrop (2 * k) rs) = p" by blast
  with p have "\<not> occupies body (candidate (sdrop (2 * k) rs))" by (simp add: occupies_iff)
  from generateFood_found[OF this] show ?thesis by (auto simp: occupies_iff)
qed

theorem generateFood_terminates_free_witness:
  "\<exists>newFood rest. generateFood sweep [\<lparr>x = 0, y = 0\<rparr>] = Some (newFood, rest)
      \<and> \<not> occupies [\<lparr>x = 0, y = 0\<rparr>] newFood \<and> newFood \<notin> set [\<lparr>x = 0, y = 0\<rparr>]"
proof -
  have "card (set [\<lparr>x = 0, y = 0\<rparr>]) < nat (GRID_SIZE * GRID_SIZE)"
    by (simp add: GRID_SIZE_def)
  moreover have "\<forall>p. inGrid p \<longrightarrow> (\<exists>k. candidate (sdrop (2 * k) sweep) = p)"
    using sweep_covers by blast
  ultimately show ?thesis by (rule generateFood_terminates_free)
qed

section \<open>C10: running into the own body\<close>

text \<open>
  C10: in every \<open>Running\<close> state in which the moved head is a cell of the snake as it
  is before the move, the last cell included, a tick sets \<open>gameOver\<close>, changes nothing
  else, and the engine is \<open>Over\<close>.
\<close>

theorem self_collision_ends_game:
  assumes "phase_of c = Running" and "snake (gameState c) = h # t"
    and "moveHead (direction (gameState c)) h \<in> set (h # t)"
  shows "advanceTick c = Some (c\<lparr>gameState := (gameState c)\<lparr>gameOver := True\<rparr>\<rparr>) \<and>
         phase_of (c\<lparr>gameState := (gameState c)\<lparr>gameOver := True\<rparr>\<rparr>) = Over"
proof -
  from assms(1) have live: "\<not> gameOver (gameState c)" "\<not> isPaused (gameState c)"
    and pl: "isPlaying c"
    by (simp_all add: Running_iff)
  have "advanceTick c = Some (c\<lparr>gameState := (gameState c)\<lparr>gameOver := True\<rparr>\<rparr>)"
    unfolding advanceTick_Running[OF assms(1)]
    using assms(3) by (intro moveSnake_crash[OF live assms(2)]) simp
  with phase_of_crashed[OF pl] show ?thesis by simp
qed

theorem self_collision_ends_game_witness:
  "advanceTick (playing [\<lparr>x = 10, y = 10\<rparr>, \<lparr>x = 10, y = 11\<rparr>, \<lparr>x = 11, y = 11\<rparr>, \<lparr>x = 11, y = 10\<rparr>]
       \<lparr>x = 0, y = 0\<rparr> ''RIGHT'' (sconst 0)) =
     Some ((playing [\<lparr>x = 10, y = 10\<rparr>, \<lparr>x = 10, y = 11\<rparr>, \<lparr>x = 11, y = 11\<rparr>, \<lparr>x = 11, y = 10\<rparr>]
       \<lparr>x = 0, y = 0\<rparr> ''RIGHT'' (sconst 0))
       \<lparr>gameState := (gameState
          (playing [\<lparr>x = 10, y = 10\<rparr>, \<lparr>x = 10, y = 11\<rparr>, \<lparr>x = 11, y = 11\<rparr>, \<lparr>x = 11, y = 10\<rparr>]
             \<lparr>x = 0, y = 0\<rparr> ''RIGHT'' (sconst 0)))\<lparr>gameOver := True\<rparr>\<rparr>) \<and>
   moveHead ''RIGHT'' \<lparr>x = 10, y = 10\<rparr> =
     last [\<lparr>x = 10, y = 10\<rparr>, \<lparr>x = 10, y = 11\<rparr>, \<lparr>x = 11, y = 11\<rparr>, \<lparr>x = 11, y = 10\<rparr>] \<and>
   advanceTick (playing [\<lparr>x = 10, y = 10\<rparr>, \<lparr>x = 9, y = 10\<rparr>] \<lparr>x = 0, y = 0\<rparr> ''LEFT'' (sconst 0)) =
     Some ((playing [\<lparr>x = 10, y = 10\<rparr>, \<lparr>x = 9, y = 10\<rparr>] \<lparr>x = 0, y = 0\<rparr> ''LEFT'' (sconst 0))
       \<lparr>gameState := (gameState
          (playing [\<lparr>x = 10, y = 10\<rparr>, \<lparr>x = 9, y = 10\<rparr>] \<lparr>x = 0, y = 0\<rparr> ''LEFT'' (sconst 0)))
            \<lparr>gameOver := True\<rparr>\<rparr>)"
proof -
  let ?s = "playing [\<lparr>x = 10, y = 10\<rparr>, \<lparr>x = 10, y = 11\<rparr>, \<lparr>x = 11, y = 11\<rparr>, \<lparr>x = 11, y = 10\<rparr>]
       \<lparr>x = 0, y = 0\<rparr> ''RIGHT'' (sconst 0)"
  let ?r = "playing [\<lparr>x = 10, y = 10\<rparr>, \<lparr>x = 9, y = 10\<rparr>] \<lparr>x = 0, y = 0\<rparr> ''LEFT'' (sconst 0)"
  have "phase_of ?s = Running"
    "snake (gameState ?s) = \<lparr>x = 10, y = 10\<rparr> # [\<lparr>x = 10, y = 11\<rparr>, \<lparr>x = 11, y = 11\<rparr>, \<lparr>x = 11, y = 10\<rparr>]"
    "moveHead (direction (gameState ?s)) \<lparr>x = 10, y = 10\<rparr>
       \<in> set (\<lparr>x = 10, y = 10\<rparr> # [\<lparr>x = 10, y = 11\<rparr>, \<lparr>x = 11, y = 11\<rparr>, \<lparr>x = 11, y = 10\<rparr>])"
    by (simp_all add: Running_iff playing_sel moveHead_def)
  note a = self_collision_ends_game[OF this]
  have "phase_of ?r = Running"
    "snake (gameState ?r) = \<lparr>x = 10, y = 10\<rparr> # [\<lparr>x = 9, y = 10\<rparr>]"
    "moveHead (direction (gameState ?r)) \<lparr>x = 10, y = 10\<rparr>
       \<in> set (\<lparr>x = 10, y = 10\<rparr> # [\<lparr>x = 9, y = 10\<rparr>])"
    by (simp_all add: Running_iff playing_sel moveHead_def)
  note b = self_collision_ends_game[OF this]
  have "moveHead ''RIGHT'' \<lparr>x = 10, y = 10\<rparr> =
     last [\<lparr>x = 10, y = 10\<rparr>, \<lparr>x = 10, y = 11\<rparr>, \<lparr>x = 11, y = 11\<rparr>, \<lparr>x = 11, y = 10\<rparr>]"
    by (simp add: moveHead_def)
  with a b show ?thesis by blast
qed

end
